theory Spec2Isabelle
  imports Complex_Main "HOL-Library.AList"
begin

section \<open>The function tracer of \<^verbatim>\<open>tracer.py\<close>\<close>

text \<open>
  A shallow embedding of \<^verbatim>\<open>src/main/resources/python/tracer.py\<close>: the
  \<^verbatim>\<open>FunctionStats\<close> dataclass and every method of \<^verbatim>\<open>FunctionTracer\<close> except the
  report renderer. The tracer object is a record; everything the methods reach outside the
  object (the interpreter's trace slot, module namespaces, the heap of
  \<^verbatim>\<open>FunctionStats\<close> objects, closure cells) is a second record, and each method takes both
  and returns both.

  Conventions of the model.
  \<^item> A Python \<^verbatim>\<open>float\<close> is a double, held as the real number it denotes. An
    arithmetic operation on floats yields the double nearest the exact result (\<open>fl\<close>
    below); comparisons are exact. The exponent range is taken unbounded: no overflow to
    \<^verbatim>\<open>inf\<close>, no subnormals (the clock readings of a process are far from both).
  \<^item> A Python \<^verbatim>\<open>set\<close> is a list without duplicates, in one iteration order (insertion
    order); a \<^verbatim>\<open>dict\<close> that is iterated is an association list in insertion order.
  \<^item> Console output (\<^verbatim>\<open>print\<close>) is not modelled.
  \<^item> The callables under observation and the external trace hook are black boxes, given
    as parameters; they do not reach into the tracer.
\<close>

subsection \<open>Python objects\<close>

type_synonym val = nat
  \<comment> \<open>an argument or a result of a call\<close>

type_synonym loc = "string \<times> string"
  \<comment> \<open>a binding location: module name and attribute name\<close>

datatype code = Code nat | WrapperCode | WrappedFunctionCode
  \<comment> \<open>identity of a code object: of a source-level function, of the decorator's
      \<^verbatim>\<open>wrapper\<close>, of \<^verbatim>\<open>wrapped_function\<close>\<close>

datatype func =
    PyFunc nat nat
      \<comment> \<open>a source-level function object: its identity and the identity of its code\<close>
  | Opaque nat "loc option"
      \<comment> \<open>a callable without \<^verbatim>\<open>__code__\<close> (built-in function, class, ...): its identity,
          and the binding that \<^verbatim>\<open>__module__\<close>, \<^verbatim>\<open>__name__\<close> and
          \<^verbatim>\<open>importlib.import_module\<close> resolve to; \<open>None\<close> when an attribute is missing
          or the import or \<^verbatim>\<open>setattr\<close> raises\<close>
  | Substitute func nat
      \<comment> \<open>a \<^verbatim>\<open>wrapped_function\<close> closure: the function \<^verbatim>\<open>functools.wraps\<close> was given,
          and the closure cell that holds its free variable \<^verbatim>\<open>func\<close>\<close>
  | Wrapper func
      \<comment> \<open>the \<^verbatim>\<open>wrapper\<close> closure built by the decorator for a function\<close>
  | Object nat
      \<comment> \<open>any other object: no \<^verbatim>\<open>__code__\<close>, not callable\<close>

datatype exn =
    RuntimeError string
  | NameError string
  | AttributeError string
  | OtherException nat
      \<comment> \<open>any other instance of \<^verbatim>\<open>Exception\<close>\<close>
  | NonException nat
      \<comment> \<open>a \<^verbatim>\<open>BaseException\<close> outside \<^verbatim>\<open>Exception\<close>: \<^verbatim>\<open>KeyboardInterrupt\<close>,
          \<^verbatim>\<open>SystemExit\<close>, \<^verbatim>\<open>GeneratorExit\<close>\<close>


fun code_of :: "func \<Rightarrow> code option" where
  "code_of (PyFunc i c) = Some (Code c)"
| "code_of (Opaque i l) = None"
| "code_of (Substitute f c) = Some WrappedFunctionCode"
| "code_of (Wrapper f) = Some WrapperCode"
| "code_of (Object i) = None"

fun callable :: "func \<Rightarrow> bool" where
  "callable (Object i) = False"
| "callable _ = True"

fun binding_of :: "func \<Rightarrow> loc option" where
  "binding_of (Opaque i l) = l"
| "binding_of _ = None"

text \<open>
  \<open>binding_of\<close> is what lines 209-216 and 223-230 resolve for a function. The source
  resolves only members of \<^verbatim>\<open>_builtin_functions\<close>, which are all \<open>Opaque\<close>; the
  value on the other constructors is never used.
\<close>

subsection \<open>Float arithmetic\<close>

text \<open>
  The binary exponent of a positive number, the \<open>e\<close> with \<open>2\<^sup>e \<le> x < 2\<^sup>e\<^sup>+\<^sup>1\<close>, found by
  halving a number that is at least 1 and doubling one that is below 1.
\<close>

function exp_up :: "real \<Rightarrow> int" where
  "exp_up x = (if x < 2 then 0 else exp_up (x / 2) + 1)"
  by pat_completeness auto
termination
proof (relation "measure (\<lambda>x. nat \<lfloor>x\<rfloor>)")
  show "wf (measure (\<lambda>x::real. nat \<lfloor>x\<rfloor>))" by simp
next
  fix x :: real
  assume "\<not> x < 2"
  then have "x / 2 + 1 \<le> x" by simp
  then have lt: "\<lfloor>x / 2\<rfloor> < \<lfloor>x\<rfloor>" by linarith
  have pos: "0 < \<lfloor>x\<rfloor>" using \<open>\<not> x < 2\<close> by simp
  from lt pos show "(x / 2, x) \<in> measure (\<lambda>x. nat \<lfloor>x\<rfloor>)"
    by (simp add: zless_nat_conj)
qed

function exp_down :: "real \<Rightarrow> int" where
  "exp_down x = (if x \<le> 0 \<or> 1 \<le> x then 0 else exp_down (2 * x) - 1)"
  by pat_completeness auto
termination
proof (relation "measure (\<lambda>x. nat \<lfloor>1 / x\<rfloor>)")
  show "wf (measure (\<lambda>x::real. nat \<lfloor>1 / x\<rfloor>))" by simp
next
  fix x :: real
  assume "\<not> (x \<le> 0 \<or> 1 \<le> x)"
  then have x: "0 < x" "x < 1" by simp_all
  define y where "y = 1 / x"
  have y: "1 < y" using x by (simp add: y_def)
  have h: "1 / (2 * x) = y / 2" by (simp add: y_def)
  have lt: "\<lfloor>y / 2\<rfloor> + 1 \<le> \<lfloor>y\<rfloor>"
  proof (cases "2 \<le> y")
    case True
    then have "y / 2 + 1 \<le> y" by simp
    then show ?thesis by linarith
  next
    case False
    then have "\<lfloor>y / 2\<rfloor> = 0" using y by (simp add: floor_eq_iff)
    moreover have "1 \<le> \<lfloor>y\<rfloor>" using y by simp
    ultimately show ?thesis by simp
  qed
  have pos: "0 < \<lfloor>y\<rfloor>" using y by simp
  have "nat \<lfloor>y / 2\<rfloor> < nat \<lfloor>y\<rfloor>"
    using lt pos by (simp add: zless_nat_conj)
  then show "(2 * x, x) \<in> measure (\<lambda>x. nat \<lfloor>1 / x\<rfloor>)"
    by (simp only: in_measure h y_def)
qed

declare exp_up.simps [simp del] exp_down.simps [simp del]

definition expo :: "real \<Rightarrow> int" where
  "expo x = (if 1 \<le> x then exp_up x else exp_down x)"

text \<open>
  Rounding to the nearest integer, ties to even, and rounding to 53 significant bits:
  for \<open>2\<^sup>e \<le> |x| < 2\<^sup>e\<^sup>+\<^sup>1\<close> the doubles around \<open>x\<close> are the multiples of
  \<open>2\<^sup>e\<^sup>-\<^sup>5\<^sup>2\<close>.
\<close>

definition rne :: "real \<Rightarrow> int" where
  "rne y =
     (let f = \<lfloor>y\<rfloor>
      in if y - of_int f < 1 / 2 then f
         else if 1 / 2 < y - of_int f then f + 1
         else if even f then f else f + 1)"

definition fl :: "real \<Rightarrow> real" where
  "fl x =
     (if x = 0 then 0
      else
        (let e = expo \<bar>x\<bar>;
             ulp = power_int 2 (e - 52)
         in sgn x * (of_int (rne (\<bar>x\<bar> / ulp)) * ulp)))"

definition unit_roundoff :: real where
  "unit_roundoff = 1 / 2 ^ 53"


subsection \<open>FunctionStats\<close>

datatype ftime = Inf | Fin real
  \<comment> \<open>a float that may be \<^verbatim>\<open>float('inf')\<close>\<close>

fun ftime_le :: "ftime \<Rightarrow> ftime \<Rightarrow> bool" where
  "ftime_le _ Inf = True"
| "ftime_le Inf (Fin _) = False"
| "ftime_le (Fin a) (Fin b) = (a \<le> b)"

fun py_min :: "ftime \<Rightarrow> real \<Rightarrow> ftime" where
  "py_min Inf d = Fin d"
| "py_min (Fin m) d = (if d < m then Fin d else Fin m)"

definition py_max :: "real \<Rightarrow> real \<Rightarrow> real" where
  "py_max m d = (if d > m then d else m)"

record FunctionStats =
  call_count :: int
  total_time :: real
  min_time :: ftime
  max_time :: real

definition FunctionStats_default :: FunctionStats where
  "FunctionStats_default =
     \<lparr>call_count = 0, total_time = 0, min_time = Inf, max_time = 0\<rparr>"


text \<open>
  The four assignments of lines 200-203 (and again 273-276) on one
  \<^verbatim>\<open>FunctionStats\<close> object.
\<close>

definition add_sample :: "FunctionStats \<Rightarrow> real \<Rightarrow> FunctionStats" where
  "add_sample st duration =
     (let st1 = st\<lparr>call_count := call_count st + 1\<rparr>;
          st2 = st1\<lparr>total_time := fl (total_time st1 + duration)\<rparr>;
          st3 = st2\<lparr>min_time := py_min (min_time st2) duration\<rparr>
      in st3\<lparr>max_time := py_max (max_time st3) duration\<rparr>)"

subsection \<open>The tracer object and its surroundings\<close>

datatype hook = External nat | SelfTrace
  \<comment> \<open>a trace function: an external one, or this tracer's bound
      \<^verbatim>\<open>_trace_function\<close>\<close>


record frame =
  f_id :: int
  f_code :: code

record tracer =
  enabled :: bool
  traced_functions :: "func list"
  decorated_functions :: "func list"
  stats :: "func \<rightharpoonup> nat"
    \<comment> \<open>the table holds references to \<^verbatim>\<open>FunctionStats\<close> objects\<close>
  call_stack :: "int \<rightharpoonup> func \<times> real"
  original_trace_function :: "hook option"
  builtin_functions :: "func list"
  original_builtins :: "(func \<times> func) list"
  wrapped_builtins :: "(func \<times> func) list"

record world =
  sys_trace :: "hook option"
    \<comment> \<open>what \<^verbatim>\<open>sys.gettrace()\<close> returns\<close>
  modules :: "loc \<rightharpoonup> func"
    \<comment> \<open>the attributes of the imported modules\<close>
  objs :: "nat \<Rightarrow> FunctionStats"
    \<comment> \<open>the heap of \<^verbatim>\<open>FunctionStats\<close> objects, by reference\<close>
  next_ref :: nat
  cells :: "nat \<rightharpoonup> func"
    \<comment> \<open>closure cells: one per run of \<^verbatim>\<open>_setup_builtin_tracing\<close>, for its local
        \<^verbatim>\<open>func\<close>\<close>
  next_cell :: nat
  hook_calls :: "(hook \<times> frame \<times> string \<times> val) list"
    \<comment> \<open>the events handed to the captured hook so far\<close>

type_synonym callbeh = "func \<Rightarrow> val list \<Rightarrow> (exn + val) \<times> real"
  \<comment> \<open>what calling an original callable on arguments does this time: it raises or returns,
      after some elapsed time\<close>


definition FunctionTracer_init :: tracer where
  "FunctionTracer_init =
     \<lparr>enabled = False, traced_functions = [], decorated_functions = [],
      stats = Map.empty, call_stack = Map.empty, original_trace_function = None,
      builtin_functions = [], original_builtins = [], wrapped_builtins = []\<rparr>"

definition set_add :: "'a \<Rightarrow> 'a list \<Rightarrow> 'a list" where
  "set_add x xs = (if x \<in> set xs then xs else xs @ [x])"

subsection \<open>The statistics table\<close>

text \<open>
  \<^verbatim>\<open>self._stats[func]\<close> on the \<^verbatim>\<open>defaultdict\<close>: a missing key gets a fresh
  \<^verbatim>\<open>FunctionStats()\<close>.
\<close>

definition stats_getitem :: "func \<Rightarrow> tracer \<Rightarrow> world \<Rightarrow> nat \<times> tracer \<times> world" where
  "stats_getitem f t w =
     (case stats t f of
        Some r \<Rightarrow> (r, t, w)
      | None \<Rightarrow>
          (let r = next_ref w
           in (r, t\<lparr>stats := (stats t)(f \<mapsto> r)\<rparr>,
               w\<lparr>objs := (objs w)(r := FunctionStats_default), next_ref := r + 1\<rparr>)))"

text \<open>Lines 199-203 and 272-276: look the entry up and update the object in place.\<close>

definition update_stats :: "func \<Rightarrow> real \<Rightarrow> tracer \<Rightarrow> world \<Rightarrow> tracer \<times> world" where
  "update_stats f duration t w =
     (case stats_getitem f t w of
        (r, t1, w1) \<Rightarrow> (t1, w1\<lparr>objs := (objs w1)(r := add_sample (objs w1 r) duration)\<rparr>))"

text \<open>Reading an entry of a table of references (the tracer's, or a returned copy).\<close>

definition entry :: "(func \<rightharpoonup> nat) \<Rightarrow> world \<Rightarrow> func \<Rightarrow> FunctionStats option" where
  "entry tab w f = map_option (objs w) (tab f)"


subsection \<open>Opaque functions\<close>

definition is_builtin_function :: "func \<Rightarrow> bool" where
  "is_builtin_function f = (code_of f = None \<and> callable f)"

text \<open>
  The loop of \<^verbatim>\<open>_setup_builtin_tracing\<close>. Its variable \<^verbatim>\<open>func\<close> is free in
  \<^verbatim>\<open>wrapped_function\<close>, so it lives in a cell \<open>c\<close> that every closure of this run
  shares; each iteration assigns it.
\<close>

fun setup_loop :: "nat \<Rightarrow> func list \<Rightarrow> tracer \<Rightarrow> world \<Rightarrow> tracer \<times> world" where
  "setup_loop c [] t w = (t, w)"
| "setup_loop c (f # fs) t w =
     (let w1 = w\<lparr>cells := (cells w)(c \<mapsto> f)\<rparr>
      in if f \<in> set (map fst (wrapped_builtins t)) then setup_loop c fs t w1
         else
           (let t1 = t\<lparr>original_builtins := AList.update f f (original_builtins t)\<rparr>;
                wrapped_function = Substitute f c;
                t2 = t1\<lparr>wrapped_builtins :=
                          AList.update f wrapped_function (wrapped_builtins t1)\<rparr>;
                w2 = (case binding_of f of
                        None \<Rightarrow> w1
                      | Some l \<Rightarrow> w1\<lparr>modules := (modules w1)(l \<mapsto> wrapped_function)\<rparr>)
            in setup_loop c fs t2 w2))"

definition setup_builtin_tracing :: "tracer \<Rightarrow> world \<Rightarrow> tracer \<times> world" where
  "setup_builtin_tracing t w =
     (let c = next_cell w
      in setup_loop c (builtin_functions t) t (w\<lparr>next_cell := c + 1\<rparr>))"

fun restore_loop :: "(func \<times> func) list \<Rightarrow> world \<Rightarrow> world" where
  "restore_loop [] w = w"
| "restore_loop ((f, original) # rest) w =
     restore_loop rest
       (case binding_of f of
          None \<Rightarrow> w
        | Some l \<Rightarrow> w\<lparr>modules := (modules w)(l \<mapsto> original)\<rparr>)"

definition restore_builtin_functions :: "tracer \<Rightarrow> world \<Rightarrow> tracer \<times> world" where
  "restore_builtin_functions t w =
     (t\<lparr>builtin_functions := [], original_builtins := [], wrapped_builtins := []\<rparr>,
      restore_loop (original_builtins t) w)"

text \<open>
  \<^verbatim>\<open>wrapped_function\<close>, lines 191-205, called at clock reading \<open>now\<close>; the clock
  reads \<open>now + elapsed\<close> when \<^verbatim>\<open>func\<close> has returned. There is no
  \<^verbatim>\<open>try\<close> around the call of \<^verbatim>\<open>func\<close>: when it raises, the lines after it do not run.
  An unassigned cell would raise \<^verbatim>\<open>NameError\<close>; no closure exists before its cell is
  assigned.
\<close>

definition wrapped_function ::
  "callbeh \<Rightarrow> real \<Rightarrow> nat \<Rightarrow> val list \<Rightarrow> tracer \<Rightarrow> world \<Rightarrow> (exn + val) \<times> tracer \<times> world" where
  "wrapped_function beh now c args t w =
     (case cells w c of
        None \<Rightarrow> (Inl (NameError ''func''), t, w)
      | Some func \<Rightarrow>
          if \<not> enabled t then (fst (beh func args), t, w)
          else
            (let start_time = now
             in case beh func args of
                  (Inl e, elapsed) \<Rightarrow> (Inl e, t, w)
                | (Inr result, elapsed) \<Rightarrow>
                    (let duration = fl ((start_time + elapsed) - start_time)
                     in case update_stats func duration t w of
                          (t1, w1) \<Rightarrow> (Inr result, t1, w1))))"

text \<open>
  Calling a function object. A substitute runs \<^verbatim>\<open>wrapped_function\<close>, the decorator's
  wrapper calls the function it was built for (line 56), anything else is a black box.
  The call and return events of a source-level function are the interpreter's to deliver;
  they are the inputs of the trace hook below.
\<close>

fun invoke ::
  "callbeh \<Rightarrow> real \<Rightarrow> func \<Rightarrow> val list \<Rightarrow> tracer \<Rightarrow> world \<Rightarrow> (exn + val) \<times> tracer \<times> world" where
  "invoke beh now (Substitute f c) args t w = wrapped_function beh now c args t w"
| "invoke beh now (Wrapper f) args t w = invoke beh now f args t w"
| "invoke beh now g args t w = (fst (beh g args), t, w)"

subsection \<open>The controller\<close>

fun register_functions :: "func list \<Rightarrow> tracer \<Rightarrow> tracer" where
  "register_functions [] t = t"
| "register_functions (f # fs) t =
     register_functions fs
       (if is_builtin_function f
        then t\<lparr>builtin_functions := set_add f (builtin_functions t)\<rparr>
        else t\<lparr>traced_functions := set_add f (traced_functions t)\<rparr>)"

definition update_functions ::
  "func list \<Rightarrow> tracer \<Rightarrow> world \<Rightarrow> (exn + unit) \<times> tracer \<times> world" where
  "update_functions functions t w =
     (if \<not> enabled t then (Inl (RuntimeError ''Tracing is not enabled''), t, w)
      else
        (case restore_builtin_functions t w of
           (t1, w1) \<Rightarrow>
             (let t2 = t1\<lparr>traced_functions := decorated_functions t1\<rparr>;
                  t3 = t2\<lparr>builtin_functions := []\<rparr>;
                  t4 = register_functions functions t3
              in case setup_builtin_tracing t4 w1 of
                   (t5, w5) \<Rightarrow> (Inr (), t5, w5))))"

text \<open>
  The parameter \<^verbatim>\<open>functions\<close> defaults to \<^verbatim>\<open>None\<close>; \<^verbatim>\<open>if functions:\<close> is false for
  \<^verbatim>\<open>None\<close> and for the empty list.
\<close>

definition truthy :: "func list option \<Rightarrow> bool" where
  "truthy functions = (case functions of None \<Rightarrow> False | Some fs \<Rightarrow> fs \<noteq> [])"

definition listed :: "func list option \<Rightarrow> func list" where
  "listed functions = (case functions of None \<Rightarrow> [] | Some fs \<Rightarrow> fs)"

definition enable :: "func list option \<Rightarrow> tracer \<Rightarrow> world \<Rightarrow> tracer \<times> world" where
  "enable functions t w =
     (if enabled t then
        (if truthy functions then snd (update_functions (listed functions) t w) else (t, w))
      else
        (let t1 = t\<lparr>traced_functions := decorated_functions t\<rparr>;
             t2 = (if truthy functions then register_functions (listed functions) t1 else t1);
             current_tracer = sys_trace w;
             t3 = t2\<lparr>original_trace_function := current_tracer\<rparr>;
             w3 = w\<lparr>sys_trace := Some SelfTrace\<rparr>
         in case setup_builtin_tracing t3 w3 of
              (t4, w4) \<Rightarrow> (t4\<lparr>enabled := True\<rparr>, w4)))"

definition disable :: "tracer \<Rightarrow> world \<Rightarrow> (func \<rightharpoonup> nat) \<times> tracer \<times> world" where
  "disable t w =
     (if \<not> enabled t then (stats t, t, w)
      else
        (let w1 = w\<lparr>sys_trace := original_trace_function t\<rparr>
         in case restore_builtin_functions t w1 of
              (t2, w2) \<Rightarrow>
                (let t3 = t2\<lparr>enabled := False\<rparr>;
                     t4 = t3\<lparr>call_stack := Map.empty\<rparr>
                 in (stats t4, t4, w2))))"

subsection \<open>The decorator\<close>




subsection \<open>The trace hook\<close>



subsection \<open>Scenarios\<close>

text \<open>
  What the theorems below run the tracer on: worlds, callables and hooks to start from,
  sequences of updates, events delivered to the trace hook, whole sessions; and the
  predicates their statements use.
\<close>

definition world0 :: world where
  "world0 =
     \<lparr>sys_trace = None, modules = Map.empty, objs = (\<lambda>_. FunctionStats_default),
      next_ref = 0, cells = Map.empty, next_cell = 0, hook_calls = []\<rparr>"



text \<open>
  Calling the attribute \<open>l\<close> of a module: \<^verbatim>\<open>module.name(*args)\<close> as a caller of
  the rebound function writes it.
\<close>

definition call_attr ::
  "callbeh \<Rightarrow> real \<Rightarrow> loc \<Rightarrow> val list \<Rightarrow> tracer \<Rightarrow> world \<Rightarrow> (exn + val) \<times> tracer \<times> world" where
  "call_attr beh now l args t w =
     (case modules w l of
        None \<Rightarrow> (Inl (AttributeError (snd l)), t, w)
      | Some g \<Rightarrow> invoke beh now g args t w)"

text \<open>Two built-in functions, their modules, and the tracer enabled on one or both.\<close>

definition time_sleep :: func where
  "time_sleep = Opaque 1 (Some (''time'', ''sleep''))"

definition os_getcwd :: func where
  "os_getcwd = Opaque 2 (Some (''os'', ''getcwd''))"

definition world1 :: world where
  "world1 = world0\<lparr>modules :=
     [(''time'', ''sleep'') \<mapsto> time_sleep, (''os'', ''getcwd'') \<mapsto> os_getcwd]\<rparr>"


definition answering :: callbeh where
  "answering f args = (case f of Opaque i l \<Rightarrow> (Inr i, 1) | _ \<Rightarrow> (Inr 0, 1))"

definition one_wrapped :: "tracer \<times> world" where
  "one_wrapped = enable (Some [time_sleep]) FunctionTracer_init world1"

definition two_wrapped :: "tracer \<times> world" where
  "two_wrapped = enable (Some [time_sleep, os_getcwd]) FunctionTracer_init world1"



text \<open>
  The table is well formed on a heap: distinct keys hold distinct references, all of them
  allocated.
\<close>

definition refs_ok :: "(func \<rightharpoonup> nat) \<Rightarrow> world \<Rightarrow> bool" where
  "refs_ok tab w = (inj_on tab (dom tab) \<and> (\<forall>r\<in>ran tab. r < next_ref w))"





definition samples_for :: "func \<Rightarrow> (func \<times> real) list \<Rightarrow> real list" where
  "samples_for f ps = map snd (filter (\<lambda>p. fst p = f) ps)"











text \<open>\<^verbatim>\<open>enable\<close> a second time, with both functions.\<close>

definition twice_enabled :: "tracer \<times> world" where
  "twice_enabled = enable (Some [time_sleep, os_getcwd]) (fst one_wrapped) (snd one_wrapped)"

text \<open>
  \<^verbatim>\<open>enable\<close> a second time with what the name \<^verbatim>\<open>time.sleep\<close> holds by then, the
  substitute.
\<close>

definition renamed :: "tracer \<times> world" where
  "renamed = enable (Some [Substitute time_sleep 0]) (fst one_wrapped) (snd one_wrapped)"

section \<open>Properties\<close>

subsection \<open>Rounding\<close>

lemma rne_error: "\<bar>of_int (rne y) - y\<bar> \<le> 1 / 2"
proof -
  have "of_int \<lfloor>y\<rfloor> \<le> y" "y < of_int \<lfloor>y\<rfloor> + 1" by linarith+
  then show ?thesis by (auto simp: rne_def Let_def)
qed

lemma rne_of_int [simp]: "rne (of_int k) = k"
  by (simp add: rne_def)

lemma rne_numeral [simp]: "rne (numeral n) = numeral n"
  using rne_of_int [of "numeral n"] by simp

lemma exp_up_bounds:
  "1 \<le> x \<Longrightarrow> power_int 2 (exp_up x) \<le> x \<and> x < power_int 2 (exp_up x + 1)"
proof (induction x rule: exp_up.induct)
  case (1 x)
  show ?case
  proof (cases "x < 2")
    case True
    then have "exp_up x = 0" by (subst exp_up.simps) simp
    with True "1.prems" show ?thesis by simp
  next
    case False
    then have "1 \<le> x / 2" by simp
    from "1.IH" [OF False this]
    have lo: "power_int 2 (exp_up (x / 2)) \<le> x / 2"
      and hi: "x / 2 < power_int 2 (exp_up (x / 2) + 1)"
      by simp_all
    have e: "exp_up x = exp_up (x / 2) + 1"
      using False by (subst exp_up.simps) simp
    have p1: "power_int (2::real) (exp_up (x / 2) + 1) = power_int 2 (exp_up (x / 2)) * 2"
      by (simp add: power_int_add)
    have p2: "power_int (2::real) (exp_up (x / 2) + 1 + 1) = power_int 2 (exp_up (x / 2)) * 4"
      by (simp add: power_int_add)
    show ?thesis
      unfolding e p2 using lo hi unfolding p1 by simp
  qed
qed

lemma exp_down_bounds:
  "0 < x \<Longrightarrow> x < 1 \<Longrightarrow>
   power_int 2 (exp_down x) \<le> x \<and> x < power_int 2 (exp_down x + 1)"
proof (induction x rule: exp_down.induct)
  case (1 x)
  have c: "\<not> (x \<le> 0 \<or> 1 \<le> x)" using "1.prems" by simp
  have e: "exp_down x = exp_down (2 * x) - 1"
    using c by (subst exp_down.simps) simp
  have p1: "power_int (2::real) (exp_down (2 * x) - 1) = power_int 2 (exp_down (2 * x)) / 2"
    by (simp add: power_int_diff)
  have p2: "power_int (2::real) (exp_down (2 * x) - 1 + 1) = power_int 2 (exp_down (2 * x))"
    by simp
  have p3: "power_int (2::real) (exp_down (2 * x) + 1) = power_int 2 (exp_down (2 * x)) * 2"
    by (simp add: power_int_add)
  show ?case
  proof (cases "2 * x < 1")
    case True
    from "1.IH" [OF c _ True] "1.prems"
    have "power_int 2 (exp_down (2 * x)) \<le> 2 * x"
      and "2 * x < power_int 2 (exp_down (2 * x) + 1)"
      by simp_all
    then show ?thesis
      unfolding e p1 p2 p3 by simp
  next
    case False
    then have "exp_down (2 * x) = 0" by (subst exp_down.simps) simp
    then show ?thesis
      unfolding e using False "1.prems" by simp
  qed
qed

lemma expo_bounds:
  assumes "0 < x"
  shows "power_int 2 (expo x) \<le> x" and "x < power_int 2 (expo x + 1)"
  using assms exp_up_bounds [of x] exp_down_bounds [of x]
  by (auto simp: expo_def)

lemma expo_unique:
  assumes "power_int 2 e \<le> x" and "x < power_int 2 (e + 1)"
  shows "expo x = e"
proof -
  have pos: "0 < x" using assms(1) zero_less_power_int [of "2::real" e] by linarith
  note b = expo_bounds [OF pos]
  have "expo x < e + 1"
  proof (rule ccontr)
    assume "\<not> expo x < e + 1"
    then have "power_int (2::real) (e + 1) \<le> power_int 2 (expo x)"
      by (intro power_int_increasing) simp_all
    with b(1) assms(2) show False by linarith
  qed
  moreover have "e < expo x + 1"
  proof (rule ccontr)
    assume "\<not> e < expo x + 1"
    then have "power_int (2::real) (expo x + 1) \<le> power_int 2 e"
      by (intro power_int_increasing) simp_all
    with b(2) assms(1) show False by linarith
  qed
  ultimately show ?thesis by simp
qed

lemma fl_at:
  assumes "power_int 2 e \<le> x" and "x < power_int 2 (e + 1)"
  shows "fl x = of_int (rne (x / power_int 2 (e - 52))) * power_int 2 (e - 52)"
proof -
  have pos: "0 < x" using assms(1) zero_less_power_int [of "2::real" e] by linarith
  have "expo \<bar>x\<bar> = e" using expo_unique [OF assms] pos by simp
  then show ?thesis using pos by (simp add: fl_def Let_def)
qed

lemma fl_zero [simp]: "fl 0 = 0"
  by (simp add: fl_def)

lemma fl_error:
  assumes "0 \<le> x"
  shows "(1 - unit_roundoff) * x \<le> fl x" and "fl x \<le> (1 + unit_roundoff) * x"
proof -
  have "(1 - unit_roundoff) * x \<le> fl x \<and> fl x \<le> (1 + unit_roundoff) * x"
  proof (cases "x = 0")
    case True
    then show ?thesis by simp
  next
    case False
    then have pos: "0 < x" using assms by simp
    define e where "e = expo x"
    define ulp :: real where "ulp = power_int 2 (e - 52)"
    have up: "0 < ulp" by (simp add: ulp_def)
    have lo: "power_int 2 e \<le> x" and hi: "x < power_int 2 (e + 1)"
      using expo_bounds [OF pos] by (simp_all add: e_def)
    have f: "fl x = of_int (rne (x / ulp)) * ulp"
      using fl_at [OF lo hi] by (simp add: ulp_def)
    have "\<bar>of_int (rne (x / ulp)) - x / ulp\<bar> \<le> 1 / 2" by (rule rne_error)
    then have "\<bar>of_int (rne (x / ulp)) - x / ulp\<bar> * ulp \<le> 1 / 2 * ulp"
      using up by (intro mult_right_mono) simp_all
    moreover have "\<bar>of_int (rne (x / ulp)) - x / ulp\<bar> * ulp = \<bar>fl x - x\<bar>"
    proof -
      have "fl x - x = (of_int (rne (x / ulp)) - x / ulp) * ulp"
        using up by (simp add: f field_simps)
      then show ?thesis using up by (simp add: abs_mult)
    qed
    ultimately have err: "\<bar>fl x - x\<bar> \<le> ulp / 2" by simp
    have "ulp = power_int 2 e / power_int 2 52"
      unfolding ulp_def by (rule power_int_diff) simp
    then have "ulp / 2 = power_int 2 e * unit_roundoff"
      by (simp add: unit_roundoff_def)
    also have "\<dots> \<le> x * unit_roundoff"
      using lo by (intro mult_right_mono) (simp_all add: unit_roundoff_def)
    finally have "ulp / 2 \<le> x * unit_roundoff" .
    with err have "\<bar>fl x - x\<bar> \<le> x * unit_roundoff" by linarith
    then show ?thesis by (simp add: algebra_simps abs_le_iff)
  qed
  then show "(1 - unit_roundoff) * x \<le> fl x" and "fl x \<le> (1 + unit_roundoff) * x"
    by simp_all
qed


lemma fl_nonneg: "0 \<le> x \<Longrightarrow> 0 \<le> fl x"
proof -
  assume x: "0 \<le> x"
  have "0 \<le> (1 - unit_roundoff) * x"
    using x by (intro mult_nonneg_nonneg) (simp_all add: unit_roundoff_def)
  with fl_error(1) [OF x] show ?thesis by linarith
qed




subsection \<open>The aggregator\<close>








lemma py_min_Fin: "py_min (Fin m) d = Fin (min d m)"
  by (simp add: min_def)




















subsection \<open>The controller\<close>

text \<open>
  C7. With \<open>enabled = False\<close>, \<^verbatim>\<open>update_functions\<close> raises
  \<^verbatim>\<open>RuntimeError\<close> and changes nothing: the tracer object (function sets, opaque-function
  bookkeeping, statistics table, call contexts) and its surroundings (the installed trace
  hook among them) are returned as they were.
\<close>

theorem C7_update_functions_disabled:
  "\<not> enabled t \<Longrightarrow>
   update_functions functions t w = (Inl (RuntimeError ''Tracing is not enabled''), t, w)"
  by (simp add: update_functions_def)

theorem C7_update_functions_disabled_witness:
  "\<not> enabled FunctionTracer_init
   \<and> update_functions [PyFunc 1 1, Opaque 2 (Some (''time'', ''sleep''))] FunctionTracer_init world0
       = (Inl (RuntimeError ''Tracing is not enabled''), FunctionTracer_init, world0)"
proof -
  have h: "\<not> enabled FunctionTracer_init" by (simp add: FunctionTracer_init_def)
  from h C7_update_functions_disabled [OF h] show ?thesis by simp
qed

subsection \<open>Substitutes of opaque functions\<close>

lemma one_wrapped_eval:
  "enabled (fst one_wrapped)"
  "stats (fst one_wrapped) = Map.empty"
  "modules (snd one_wrapped) (''time'', ''sleep'') = Some (Substitute time_sleep 0)"
  "cells (snd one_wrapped) 0 = Some time_sleep"
  by (simp_all add: one_wrapped_def enable_def truthy_def listed_def FunctionTracer_init_def world1_def
      world0_def setup_builtin_tracing_def is_builtin_function_def set_add_def time_sleep_def
      Let_def)




lemma two_wrapped_eval:
  "enabled (fst two_wrapped)"
  "stats (fst two_wrapped) = Map.empty"
  "next_ref (snd two_wrapped) = 0"
  "modules (snd two_wrapped) (''time'', ''sleep'') = Some (Substitute time_sleep 0)"
  "modules (snd two_wrapped) (''os'', ''getcwd'') = Some (Substitute os_getcwd 0)"
  "cells (snd two_wrapped) 0 = Some os_getcwd"
  by (simp_all add: two_wrapped_def enable_def truthy_def listed_def FunctionTracer_init_def world1_def
      world0_def setup_builtin_tracing_def is_builtin_function_def set_add_def time_sleep_def
      os_getcwd_def Let_def)

text \<open>
  C2 at two opaque functions registered together. \<^verbatim>\<open>time.sleep\<close> itself would
  return 1; the substitute bound at \<^verbatim>\<open>time.sleep\<close> returns 2, the result of
  \<^verbatim>\<open>os.getcwd\<close>, and the sample is recorded for \<^verbatim>\<open>os.getcwd\<close>, none for
  \<^verbatim>\<open>time.sleep\<close>: every closure of one run of \<^verbatim>\<open>_setup_builtin_tracing\<close> reads
  the same variable \<^verbatim>\<open>func\<close>, which holds the function iterated last.
\<close>

theorem C2_substitute_invokes_last:
  "fst (answering time_sleep []) = Inr 1
   \<and> fst (call_attr answering 0 (''time'', ''sleep'') [] (fst two_wrapped) (snd two_wrapped))
       = Inr 2
   \<and> stats (fst (snd (call_attr answering 0 (''time'', ''sleep'') []
                        (fst two_wrapped) (snd two_wrapped)))) time_sleep = None
   \<and> stats (fst (snd (call_attr answering 0 (''time'', ''sleep'') []
                        (fst two_wrapped) (snd two_wrapped)))) os_getcwd = Some 0"
  by (simp add: call_attr_def two_wrapped_eval wrapped_function_def answering_def
      update_stats_def stats_getitem_def time_sleep_def os_getcwd_def)

lemma setup_loop_cell:
  "fs \<noteq> [] \<Longrightarrow> cells (snd (setup_loop c fs t w)) c = Some (last fs)"
proof (induction fs arbitrary: t w)
  case Nil
  then show ?case by simp
next
  case (Cons f fs)
  show ?case
  proof (cases "fs = []")
    case True
    then show ?thesis by (simp add: Let_def split: option.splits)
  next
    case False
    with Cons.IH show ?thesis by (simp add: Let_def)
  qed
qed

subsection \<open>The decorator\<close>




subsection \<open>What the operations leave alone\<close>

lemma setup_loop_tracer [simp]:
  "stats (fst (setup_loop c fs t w)) = stats t"
  "enabled (fst (setup_loop c fs t w)) = enabled t"
  "traced_functions (fst (setup_loop c fs t w)) = traced_functions t"
  "decorated_functions (fst (setup_loop c fs t w)) = decorated_functions t"
  "call_stack (fst (setup_loop c fs t w)) = call_stack t"
  "original_trace_function (fst (setup_loop c fs t w)) = original_trace_function t"
  "builtin_functions (fst (setup_loop c fs t w)) = builtin_functions t"
  by (induction fs arbitrary: t w; simp add: Let_def)+

lemma setup_loop_world [simp]:
  "objs (snd (setup_loop c fs t w)) = objs w"
  "next_ref (snd (setup_loop c fs t w)) = next_ref w"
  "sys_trace (snd (setup_loop c fs t w)) = sys_trace w"
  "hook_calls (snd (setup_loop c fs t w)) = hook_calls w"
  "next_cell (snd (setup_loop c fs t w)) = next_cell w"
  by (induction fs arbitrary: t w; simp add: Let_def split: option.splits)+

lemma restore_loop_world [simp]:
  "objs (restore_loop al w) = objs w"
  "next_ref (restore_loop al w) = next_ref w"
  "sys_trace (restore_loop al w) = sys_trace w"
  "hook_calls (restore_loop al w) = hook_calls w"
  "cells (restore_loop al w) = cells w"
  "next_cell (restore_loop al w) = next_cell w"
  by (induction al w rule: restore_loop.induct; simp split: option.splits)+

lemma register_functions_tracer [simp]:
  "stats (register_functions fs t) = stats t"
  "enabled (register_functions fs t) = enabled t"
  "decorated_functions (register_functions fs t) = decorated_functions t"
  "call_stack (register_functions fs t) = call_stack t"
  "original_trace_function (register_functions fs t) = original_trace_function t"
  "original_builtins (register_functions fs t) = original_builtins t"
  "wrapped_builtins (register_functions fs t) = wrapped_builtins t"
  by (induction fs arbitrary: t; simp)+

lemma setup_builtin_tracing_keeps [simp]:
  "stats (fst (setup_builtin_tracing t w)) = stats t"
  "enabled (fst (setup_builtin_tracing t w)) = enabled t"
  "traced_functions (fst (setup_builtin_tracing t w)) = traced_functions t"
  "decorated_functions (fst (setup_builtin_tracing t w)) = decorated_functions t"
  "call_stack (fst (setup_builtin_tracing t w)) = call_stack t"
  "original_trace_function (fst (setup_builtin_tracing t w)) = original_trace_function t"
  "objs (snd (setup_builtin_tracing t w)) = objs w"
  "next_ref (snd (setup_builtin_tracing t w)) = next_ref w"
  "sys_trace (snd (setup_builtin_tracing t w)) = sys_trace w"
  "hook_calls (snd (setup_builtin_tracing t w)) = hook_calls w"
  by (simp_all add: setup_builtin_tracing_def Let_def)

lemma update_functions_keeps:
  "stats (fst (snd (update_functions fs t w))) = stats t"
  "enabled (fst (snd (update_functions fs t w))) = enabled t"
  "decorated_functions (fst (snd (update_functions fs t w))) = decorated_functions t"
  "call_stack (fst (snd (update_functions fs t w))) = call_stack t"
  "original_trace_function (fst (snd (update_functions fs t w))) = original_trace_function t"
  "objs (snd (snd (update_functions fs t w))) = objs w"
  "next_ref (snd (snd (update_functions fs t w))) = next_ref w"
  "sys_trace (snd (snd (update_functions fs t w))) = sys_trace w"
  "hook_calls (snd (snd (update_functions fs t w))) = hook_calls w"
  by (simp_all add: update_functions_def restore_builtin_functions_def Let_def split_beta)

lemma enable_keeps:
  "stats (fst (enable fs t w)) = stats t"
  "decorated_functions (fst (enable fs t w)) = decorated_functions t"
  "objs (snd (enable fs t w)) = objs w"
  "next_ref (snd (enable fs t w)) = next_ref w"
  "hook_calls (snd (enable fs t w)) = hook_calls w"
  "enabled (fst (enable fs t w))"
  by (simp_all add: enable_def update_functions_keeps Let_def split_beta)


subsection \<open>Returned tables\<close>












subsection \<open>The trace hook\<close>






subsection \<open>Sessions\<close>

lemma entry_hook_calls [simp]:
  "entry tab (w\<lparr>hook_calls := x\<rparr>) f = entry tab w f"
  by (simp add: entry_def)

lemma refs_ok_hook_calls [simp]:
  "refs_ok tab (w\<lparr>hook_calls := x\<rparr>) = refs_ok tab w"
  by (simp add: refs_ok_def)




lemma update_stats_call_stack:
  "update_stats g d (t\<lparr>call_stack := c\<rparr>) w
     = (fst (update_stats g d t w)\<lparr>call_stack := c\<rparr>, snd (update_stats g d t w))"
  by (simp add: update_stats_def stats_getitem_def Let_def split: option.splits)


lemma samples_for_simps [simp]:
  "samples_for f [] = []"
  "samples_for f ((g, d) # ps) = (if g = f then d # samples_for f ps else samples_for f ps)"
  "samples_for f (ps @ qs) = samples_for f ps @ samples_for f qs"
  by (simp_all add: samples_for_def)








subsection \<open>Persistence of the statistics\<close>




subsection \<open>Installing and restoring substitutes\<close>

lemma set_set_add [simp]: "set (set_add x xs) = insert x (set xs)"
  by (auto simp: set_add_def)

lemma register_functions_builtin:
  "set (builtin_functions (register_functions fs t))
     = set (builtin_functions t) \<union> {g \<in> set fs. is_builtin_function g}"
  by (induction fs arbitrary: t) auto

lemma set_update_subset: "set (AList.update k v al) \<subseteq> insert (k, v) (set al)"
  by (induction al) auto

lemma setup_loop_originals:
  "set (original_builtins (fst (setup_loop c bs t w)))
     \<subseteq> set (original_builtins t) \<union> (\<lambda>g. (g, g)) ` set bs"
proof (induction bs arbitrary: t w)
  case Nil
  show ?case by simp
next
  case (Cons b bs)
  show ?case
  proof (cases "b \<in> set (map fst (wrapped_builtins t))")
    case True
    with Cons.IH [of t "w\<lparr>cells := (cells w)(c \<mapsto> b)\<rparr>"] show ?thesis
      by (auto simp: Let_def)
  next
    case False
    let ?t2 = "t\<lparr>original_builtins := AList.update b b (original_builtins t),
                 wrapped_builtins := AList.update b (Substitute b c) (wrapped_builtins t)\<rparr>"
    let ?w1 = "w\<lparr>cells := (cells w)(c \<mapsto> b)\<rparr>"
    let ?w2 = "case binding_of b of None \<Rightarrow> ?w1
               | Some l \<Rightarrow> ?w1\<lparr>modules := (modules ?w1)(l \<mapsto> Substitute b c)\<rparr>"
    have s: "setup_loop c (b # bs) t w = setup_loop c bs ?t2 ?w2"
      using False by (simp add: Let_def)
    have "set (original_builtins ?t2) \<subseteq> insert (b, b) (set (original_builtins t))"
      using set_update_subset [of b b "original_builtins t"] by simp
    with Cons.IH [of ?t2 ?w2] show ?thesis
      unfolding s by auto
  qed
qed

lemma setup_loop_installs:
  assumes "\<forall>g\<in>set bs. binding_of g = Some l \<longrightarrow> g = f" and "binding_of f = Some l"
    and "f \<in> set bs \<and> f \<notin> fst ` set (wrapped_builtins t)
         \<or> modules w l = Some (Substitute f c) \<and> map_of (original_builtins t) f = Some f
           \<and> f \<in> fst ` set (wrapped_builtins t)"
  shows "modules (snd (setup_loop c bs t w)) l = Some (Substitute f c)
       \<and> map_of (original_builtins (fst (setup_loop c bs t w))) f = Some f"
  using assms
proof (induction bs arbitrary: t w)
  case Nil
  then show ?case by simp
next
  case (Cons b bs)
  have uniq: "\<forall>g\<in>set bs. binding_of g = Some l \<longrightarrow> g = f"
    using Cons.prems(1) by simp
  let ?w1 = "w\<lparr>cells := (cells w)(c \<mapsto> b)\<rparr>"
  show ?case
  proof (cases "b \<in> set (map fst (wrapped_builtins t))")
    case True
    have s: "setup_loop c (b # bs) t w = setup_loop c bs t ?w1"
      using True by (simp add: Let_def)
    have "f \<in> set bs \<and> f \<notin> fst ` set (wrapped_builtins t)
         \<or> modules ?w1 l = Some (Substitute f c) \<and> map_of (original_builtins t) f = Some f
           \<and> f \<in> fst ` set (wrapped_builtins t)"
      using Cons.prems(3) True by auto
    from Cons.IH [OF uniq Cons.prems(2) this] show ?thesis
      unfolding s .
  next
    case False
    let ?t2 = "t\<lparr>original_builtins := AList.update b b (original_builtins t),
                 wrapped_builtins := AList.update b (Substitute b c) (wrapped_builtins t)\<rparr>"
    let ?w2 = "case binding_of b of None \<Rightarrow> ?w1
               | Some l \<Rightarrow> ?w1\<lparr>modules := (modules ?w1)(l \<mapsto> Substitute b c)\<rparr>"
    have s: "setup_loop c (b # bs) t w = setup_loop c bs ?t2 ?w2"
      using False by (simp add: Let_def)
    have keys: "fst ` set (wrapped_builtins ?t2) = insert b (fst ` set (wrapped_builtins t))"
      by (simp add: dom_update)
    have "f \<in> set bs \<and> f \<notin> fst ` set (wrapped_builtins ?t2)
         \<or> modules ?w2 l = Some (Substitute f c) \<and> map_of (original_builtins ?t2) f = Some f
           \<and> f \<in> fst ` set (wrapped_builtins ?t2)"
    proof (cases "b = f")
      case True
      then show ?thesis
        using Cons.prems(2) by (simp add: dom_update update_conv')
    next
      case bf: False
      then have nb: "binding_of b \<noteq> Some l"
        using Cons.prems(1) by auto
      have m: "modules ?w2 l = modules w l"
        using nb by (cases "binding_of b") auto
      have o: "map_of (original_builtins ?t2) f = map_of (original_builtins t) f"
        using bf by (simp add: update_conv')
      from Cons.prems(3) bf show ?thesis
        unfolding keys m o by auto
    qed
    from Cons.IH [OF uniq Cons.prems(2) this] show ?thesis
      unfolding s .
  qed
qed

lemma restore_loop_restores:
  assumes "\<forall>p\<in>set al. binding_of (fst p) = Some l \<longrightarrow> snd p = f" and "binding_of f = Some l"
    and "(f, f) \<in> set al \<or> modules w l = Some f"
  shows "modules (restore_loop al w) l = Some f"
  using assms
proof (induction al arbitrary: w)
  case Nil
  then show ?case by simp
next
  case (Cons p al)
  obtain g orig where p: "p = (g, orig)" by (cases p)
  let ?w1 = "case binding_of g of None \<Rightarrow> w
             | Some l' \<Rightarrow> w\<lparr>modules := (modules w)(l' \<mapsto> orig)\<rparr>"
  have s: "restore_loop (p # al) w = restore_loop al ?w1"
    by (simp add: p)
  have rest: "\<forall>p\<in>set al. binding_of (fst p) = Some l \<longrightarrow> snd p = f"
    using Cons.prems(1) by simp
  have "(f, f) \<in> set al \<or> modules ?w1 l = Some f"
  proof (cases "binding_of g = Some l")
    case True
    then have "orig = f" using Cons.prems(1) p by simp
    with True show ?thesis by simp
  next
    case False
    then have "modules ?w1 l = modules w l"
      by (cases "binding_of g") auto
    moreover have "p \<noteq> (f, f)"
      using False Cons.prems(2) p by auto
    ultimately show ?thesis using Cons.prems(3) by auto
  qed
  from Cons.IH [OF rest Cons.prems(2) this] show ?case
    unfolding s .
qed

lemma enable_again:
  assumes "enabled t" and "fs \<noteq> []"
  shows "enable (Some fs) t w = snd (update_functions fs t w)"
  using assms by (simp add: enable_def truthy_def listed_def)

lemma update_functions_installs:
  assumes en: "enabled t" and bf: "is_builtin_function f" and bl: "binding_of f = Some l"
    and mem: "f \<in> set fs" and uniq: "\<forall>g\<in>set fs. binding_of g = Some l \<longrightarrow> g = f"
    and u: "update_functions fs t w = (res, t', w')"
  shows "modules w' l = Some (Substitute f (next_cell w))
       \<and> (\<exists>g. cells w' (next_cell w) = Some g \<and> is_builtin_function g \<and> g \<in> set fs)
       \<and> map_of (original_builtins t') f = Some f
       \<and> (\<forall>p\<in>set (original_builtins t'). binding_of (fst p) = Some l \<longrightarrow> snd p = f)
       \<and> enabled t'"
proof -
  let ?t1 = "t\<lparr>builtin_functions := [], original_builtins := [], wrapped_builtins := []\<rparr>"
  let ?w1 = "restore_loop (original_builtins t) w"
  let ?t4 = "register_functions fs
               (?t1\<lparr>traced_functions := decorated_functions ?t1, builtin_functions := []\<rparr>)"
  let ?bs = "builtin_functions ?t4"
  let ?c = "next_cell w"
  let ?w4 = "?w1\<lparr>next_cell := ?c + 1\<rparr>"
  have bs: "set ?bs = {g \<in> set fs. is_builtin_function g}"
    by (simp add: register_functions_builtin)
  have e: "(t', w') = setup_loop ?c ?bs ?t4 ?w4"
    using u en
    by (simp add: update_functions_def restore_builtin_functions_def setup_builtin_tracing_def
        Let_def split_beta)
  then have t': "t' = fst (setup_loop ?c ?bs ?t4 ?w4)" and w': "w' = snd (setup_loop ?c ?bs ?t4 ?w4)"
    by (metis fst_conv, metis snd_conv)
  have fb: "f \<in> set ?bs" using bs mem bf by simp
  have ub: "\<forall>g\<in>set ?bs. binding_of g = Some l \<longrightarrow> g = f"
    using bs uniq by simp
  have start: "f \<in> set ?bs \<and> f \<notin> fst ` set (wrapped_builtins ?t4)
         \<or> modules ?w4 l = Some (Substitute f ?c) \<and> map_of (original_builtins ?t4) f = Some f
           \<and> f \<in> fst ` set (wrapped_builtins ?t4)"
    using fb by simp
  from setup_loop_installs [OF ub bl start]
  have inst: "modules w' l = Some (Substitute f ?c)"
    and orig: "map_of (original_builtins t') f = Some f"
    by (simp_all add: t' w')
  have ne: "?bs \<noteq> []" using fb by auto
  have "cells w' ?c = Some (last ?bs)"
    unfolding w' by (rule setup_loop_cell [OF ne])
  moreover have "last ?bs \<in> set ?bs" using ne by simp
  ultimately have cell: "\<exists>g. cells w' ?c = Some g \<and> is_builtin_function g \<and> g \<in> set fs"
    using bs by auto
  have "set (original_builtins t') \<subseteq> (\<lambda>g. (g, g)) ` set ?bs"
    using setup_loop_originals [of ?c ?bs ?t4 ?w4] by (simp add: t')
  then have pairs: "\<forall>p\<in>set (original_builtins t'). binding_of (fst p) = Some l \<longrightarrow> snd p = f"
    using ub by auto
  have "enabled t'" using en by (simp add: t')
  with inst cell orig pairs show ?thesis by simp
qed

text \<open>
  What a second \<^verbatim>\<open>enable\<close> leaves at the binding \<open>l\<close> of an opaque function \<open>f\<close>
  that is passed again, itself, with no other function that resolves to \<open>l\<close>: a
  substitute built for \<open>f\<close>, whose closure holds some opaque callable of the second
  list, and \<open>f\<close> recorded as the original; \<^verbatim>\<open>disable\<close> then puts \<open>f\<close> back.
\<close>

lemma second_enable_installs_once:
  assumes "is_builtin_function f" and "binding_of f = Some l"
    and "f \<in> set fs1" and "f \<in> set fs2"
    and "\<forall>g\<in>set fs2. binding_of g = Some l \<longrightarrow> g = f"
    and "enable (Some fs1) t w = (t1, w1)"
    and "enable (Some fs2) t1 w1 = (t2, w2)"
    and "disable t2 w2 = (r, t3, w3)"
  shows "(\<exists>c g. modules w2 l = Some (Substitute f c) \<and> cells w2 c = Some g
                \<and> is_builtin_function g \<and> g \<in> set fs2)
       \<and> map_of (original_builtins t2) f = Some f
       \<and> modules w3 l = Some f
       \<and> original_builtins t3 = [] \<and> wrapped_builtins t3 = []"
proof -
  have en1: "enabled t1"
    using enable_keeps(6) [of "Some fs1" t w] assms(6) by simp
  have ne: "fs2 \<noteq> []" using assms(4) by auto
  have "snd (update_functions fs2 t1 w1) = (t2, w2)"
    using enable_again [OF en1 ne, of w1] assms(7) by simp
  then have u: "update_functions fs2 t1 w1 = (fst (update_functions fs2 t1 w1), t2, w2)"
    by (metis prod.collapse)
  from update_functions_installs [OF en1 assms(1,2,4,5) u]
  have inst: "modules w2 l = Some (Substitute f (next_cell w1))"
    and cell: "\<exists>g. cells w2 (next_cell w1) = Some g \<and> is_builtin_function g \<and> g \<in> set fs2"
    and orig: "map_of (original_builtins t2) f = Some f"
    and pairs: "\<forall>p\<in>set (original_builtins t2). binding_of (fst p) = Some l \<longrightarrow> snd p = f"
    and en2: "enabled t2"
    by simp_all
  have mem: "(f, f) \<in> set (original_builtins t2)"
    using orig by (rule map_of_SomeD)
  let ?w = "w2\<lparr>sys_trace := original_trace_function t2\<rparr>"
  have d: "w3 = restore_loop (original_builtins t2) ?w"
    and l3: "original_builtins t3 = []" "wrapped_builtins t3 = []"
    using assms(8) en2
    by (auto simp: disable_def restore_builtin_functions_def Let_def)
  have "modules w3 l = Some f"
    unfolding d using pairs assms(2) mem by (intro restore_loop_restores) auto
  with inst cell orig l3 show ?thesis by blast
qed

lemma twice_enabled_eval:
  "modules (snd twice_enabled) (''time'', ''sleep'') = Some (Substitute time_sleep 1)"
  "cells (snd twice_enabled) 1 = Some os_getcwd"
  "enabled (fst twice_enabled)"
  by (simp_all add: twice_enabled_def one_wrapped_def enable_def update_functions_def
      restore_builtin_functions_def truthy_def listed_def FunctionTracer_init_def world1_def
      world0_def setup_builtin_tracing_def is_builtin_function_def set_add_def time_sleep_def
      os_getcwd_def Let_def)

lemma renamed_eval:
  "modules (snd renamed) (''time'', ''sleep'') = Some time_sleep"
  "builtin_functions (fst renamed) = []"
  "wrapped_builtins (fst renamed) = []"
  "enabled (fst renamed)"
  by (simp_all add: renamed_def one_wrapped_def enable_def update_functions_def
      restore_builtin_functions_def truthy_def listed_def FunctionTracer_init_def world1_def
      world0_def setup_builtin_tracing_def is_builtin_function_def set_add_def time_sleep_def
      Let_def)

text \<open>
  C6 at \<^verbatim>\<open>enable([time.sleep])\<close> followed by \<^verbatim>\<open>enable([time.sleep, os.getcwd])\<close>.
  The name \<^verbatim>\<open>time.sleep\<close> holds one substitute built for \<^verbatim>\<open>time.sleep\<close>, but that
  substitute does not wrap the original: its closure holds \<^verbatim>\<open>os.getcwd\<close>, and a call
  through the name returns 2, the result of \<^verbatim>\<open>os.getcwd\<close>, where \<^verbatim>\<open>time.sleep\<close> itself
  returns 1. And when the second call is given what the name holds by then (the
  substitute, a function with \<^verbatim>\<open>__code__\<close>), the original is put back and nothing is
  wrapped: no rebinding is in effect while tracing is enabled.
\<close>

theorem C6_second_enable_rebinding:
  "modules (snd twice_enabled) (''time'', ''sleep'') = Some (Substitute time_sleep 1)
   \<and> cells (snd twice_enabled) 1 = Some os_getcwd
   \<and> fst (answering time_sleep []) = Inr 1
   \<and> fst (call_attr answering 0 (''time'', ''sleep'') [] (fst twice_enabled) (snd twice_enabled))
       = Inr 2
   \<and> modules (snd one_wrapped) (''time'', ''sleep'') = Some (Substitute time_sleep 0)
   \<and> enabled (fst renamed)
   \<and> modules (snd renamed) (''time'', ''sleep'') = Some time_sleep
   \<and> wrapped_builtins (fst renamed) = []"
proof -
  have "call_attr answering 0 (''time'', ''sleep'') [] (fst twice_enabled) (snd twice_enabled)
      = wrapped_function answering 0 1 [] (fst twice_enabled) (snd twice_enabled)"
    by (simp only: call_attr_def twice_enabled_eval(1) option.simps invoke.simps)
  also have "fst \<dots> = Inr 2"
    unfolding wrapped_function_def twice_enabled_eval(2)
    by (simp add: twice_enabled_eval(3) answering_def os_getcwd_def split_beta)
  finally have c: "fst (call_attr answering 0 (''time'', ''sleep'') []
                          (fst twice_enabled) (snd twice_enabled)) = Inr 2" .
  have a: "fst (answering time_sleep []) = Inr 1"
    by (simp add: answering_def time_sleep_def)
  from c a twice_enabled_eval(1,2) one_wrapped_eval(3) renamed_eval(1,3,4)
  show ?thesis by blast
qed

end
